theory Spec2Isabelle
  imports Main
begin

section \<open>TracesOfBreakfast: the staged pipeline of main.go\<close>

text \<open>
  The program makes a batch of pancakes, flips them (\<open>FlipPancakes\<close>, Stage 1), pours
  syrup on them in a goroutine that sends the good ones on a channel
  (\<open>SyrupPancakes\<close>, Stage 2) and hands the channel to \<open>EatPancakes\<close>. Every stage
  opens a go-log event that has to be finished on every way out.

  Each Go function becomes a HOL function that returns what the Go function returns,
  the batch as the calls have left it, and the list of the actions it performed, in
  program order. The goroutine of Stage 2 is a second such list.
\<close>

subsection \<open>The external Pancake\<close>

text \<open>
  \<open>breakfast.Pancake\<close> is imported: the program only calls its methods \<open>Flip\<close>,
  \<open>IsBurnt\<close> and \<open>Syrup\<close>. They are parameters of the model. An item of type \<open>'p\<close>
  is the whole state a call depends on; \<open>Flip\<close> and \<open>Syrup\<close> return the item as the
  call leaves it and the error (\<open>None\<close> is Go's \<open>nil\<close>), \<open>IsBurnt\<close> only inspects.
\<close>

record ('p, 'e) Pancake_methods =
  Flip :: "'p \<Rightarrow> 'p \<times> 'e option"
  IsBurnt :: "'p \<Rightarrow> bool"
  Syrup :: "'p \<Rightarrow> 'p \<times> 'e option"

text \<open>
  Go compares error values by identity. \<open>errors.New\<close> and \<open>fmt.Errorf\<close> return a
  freshly allocated value, which differs from every value that existed before the call,
  whatever its message; so a value allocated by this program is never the value a
  Pancake method has handed back. The two constructors keep them apart.
\<close>

datatype 'e error =
    Returned 'e          \<comment> \<open>the error value a Pancake method returned\<close>
  | errors_New string    \<comment> \<open>allocated here by \<open>errors.New\<close> or \<open>fmt.Errorf\<close>\<close>

text \<open>\<open>fmt.Errorf\<close> formats a message into a new error value. It writes nothing.\<close>

definition fmt_Errorf :: "string \<Rightarrow> 'e error" where
  "fmt_Errorf msg = errors_New msg"

subsection \<open>Actions\<close>

datatype ('p, 'e) action =
    WithCancel                 \<comment> \<open>\<open>context.WithCancel(context.Background())\<close>\<close>
  | StartSpan string           \<comment> \<open>\<open>opentracing.StartSpan\<close>\<close>
  | SpanFinish string          \<comment> \<open>\<open>rootSpan.Finish()\<close>\<close>
  | CancelCall                 \<comment> \<open>the deferred \<open>cancel()\<close>\<close>
  | MakePancakesCall nat       \<comment> \<open>\<open>breakfast.MakePancakes(n)\<close>\<close>
  | EventBegin string          \<comment> \<open>\<open>log.EventBegin\<close>, \<open>log.EventBeginInContext\<close>\<close>
  | SetError "'e error"        \<comment> \<open>\<open>eip.SetError(err)\<close>\<close>
  | EventDone string           \<comment> \<open>\<open>eip.Done()\<close>: the event is finished\<close>
  | FlipCall nat               \<comment> \<open>\<open>cakes[p].Flip()\<close>\<close>
  | Sleep                      \<comment> \<open>\<open>time.Sleep(1 * time.Second)\<close>\<close>
  | IsBurntCall nat            \<comment> \<open>\<open>cakes[p].IsBurnt()\<close>\<close>
  | SyrupCall nat              \<comment> \<open>\<open>cakes[p].Syrup()\<close>\<close>
  | MakeChan                   \<comment> \<open>\<open>make(chan breakfast.Pancake)\<close>\<close>
  | GoStmt                     \<comment> \<open>the \<open>go func() {...}()\<close> statement\<close>
  | Send 'p                    \<comment> \<open>\<open>out <- cakes[p]\<close> went through: an emission\<close>
  | CloseChan                  \<comment> \<open>\<open>close(out)\<close>\<close>
  | LogRecord string           \<comment> \<open>a message written by the logger\<close>
  | EatPancakesCall            \<comment> \<open>\<open>EatPancakes(ready)\<close>\<close>

fun flip_calls :: "('p, 'e) action list \<Rightarrow> nat list" where
  "flip_calls [] = []"
| "flip_calls (FlipCall p # as) = p # flip_calls as"
| "flip_calls (a # as) = flip_calls as"

fun syrup_calls :: "('p, 'e) action list \<Rightarrow> nat list" where
  "syrup_calls [] = []"
| "syrup_calls (SyrupCall p # as) = p # syrup_calls as"
| "syrup_calls (a # as) = syrup_calls as"

fun emitted :: "('p, 'e) action list \<Rightarrow> 'p list" where
  "emitted [] = []"
| "emitted (Send c # as) = c # emitted as"
| "emitted (a # as) = emitted as"

fun done_events :: "('p, 'e) action list \<Rightarrow> string list" where
  "done_events [] = []"
| "done_events (EventDone n # as) = n # done_events as"
| "done_events (a # as) = done_events as"

fun log_records :: "('p, 'e) action list \<Rightarrow> string list" where
  "log_records [] = []"
| "log_records (LogRecord m # as) = m # log_records as"
| "log_records (a # as) = log_records as"

subsection \<open>Contexts and go-log events\<close>

text \<open>
  A context carries the span and the event in progress that were attached to it.
  Whether it is cancelled is not a field: it is read only by the \<open>select\<close> of Stage 2,
  and what that \<open>select\<close> sees is an input of the model (see below).
\<close>

record Context =
  ctx_span :: "string option"
  ctx_event :: "string option"

definition Background :: Context where
  "Background = \<lparr>ctx_span = None, ctx_event = None\<rparr>"

definition ContextWithSpan :: "Context \<Rightarrow> string \<Rightarrow> Context" where
  "ContextWithSpan ctx span = ctx\<lparr>ctx_span := Some span\<rparr>"

text \<open>
  Modelled from the spec: go-log is imported, not part of the repository.
  \<open>beginEventInContext(context, name)\<close> opens the event and returns a context that
  carries a reference to it.
\<close>

definition EventBeginInContext :: "Context \<Rightarrow> string \<Rightarrow> Context \<times> ('p, 'e) action list" where
  "EventBeginInContext ctx name = (ctx\<lparr>ctx_event := Some name\<rparr>, [EventBegin name])"

text \<open>
  Modelled from the spec: \<open>maybeFinishEvent(context)\<close>: if the context carries an open
  event, close it; else no-op.
\<close>

definition MaybeFinishEvent :: "Context \<Rightarrow> ('p, 'e) action list" where
  "MaybeFinishEvent ctx = (case ctx_event ctx of None \<Rightarrow> [] | Some name \<Rightarrow> [EventDone name])"

subsection \<open>Stage 1: FlipPancakes\<close>

text \<open>
  \<^verbatim>\<open>
  for p := range cakes {
      if err := cakes[p].Flip(); err != nil {
          return err
      }
  }
  \<close>
  The loop from index \<open>p\<close> on: the batch as it is left, the error that ended the loop
  (if one did) and the calls made.
\<close>

fun flip_range ::
  "('p, 'e) Pancake_methods \<Rightarrow> nat \<Rightarrow> 'p list \<Rightarrow> 'p list \<times> 'e option \<times> ('p, 'e) action list"
where
  "flip_range M p [] = ([], None, [])"
| "flip_range M p (c # cs) =
     (case Flip M c of
        (c', Some e) \<Rightarrow> (c' # cs, Some e, [FlipCall p])
      | (c', None) \<Rightarrow>
          (case flip_range M (Suc p) cs of
             (cs', r, t) \<Rightarrow> (c' # cs', r, FlipCall p # t)))"

text \<open>
  \<^verbatim>\<open>
  for p := range cakes {
      if cakes[p].IsBurnt() {
          return errors.New("Burnt Pancake")
      }
  }
  \<close>
  Whether the loop found a burnt pancake, and the calls made.
\<close>

fun burnt_range ::
  "('p, 'e) Pancake_methods \<Rightarrow> nat \<Rightarrow> 'p list \<Rightarrow> bool \<times> ('p, 'e) action list"
where
  "burnt_range M p [] = (False, [])"
| "burnt_range M p (c # cs) =
     (if IsBurnt M c then (True, [IsBurntCall p])
      else (case burnt_range M (Suc p) cs of (b, t) \<Rightarrow> (b, IsBurntCall p # t)))"

record ('p, 'e) flip_result =
  fr_err :: "'e error option"              \<comment> \<open>the named result \<open>err\<close>\<close>
  fr_cakes :: "'p list"                    \<comment> \<open>the batch after the call\<close>
  fr_trace :: "('p, 'e) action list"

text \<open>
  The deferred function of \<open>FlipPancakes\<close>, run with the value of the named result:
  \<^verbatim>\<open>
  defer func() {
      if err != nil {
          eip.SetError(err)
      }
      eip.Done()
  }()
  \<close>
\<close>

definition FlipPancakes_deferred :: "'e error option \<Rightarrow> ('p, 'e) action list" where
  "FlipPancakes_deferred err =
     (case err of None \<Rightarrow> [] | Some e \<Rightarrow> [SetError e]) @ [EventDone ''FlipPancakes'']"

definition FlipPancakes ::
  "('p, 'e) Pancake_methods \<Rightarrow> Context \<Rightarrow> 'p list \<Rightarrow> ('p, 'e) flip_result"
where
  "FlipPancakes M ctx cakes =
     (case flip_range M 0 cakes of
        (cakes1, Some e, t1) \<Rightarrow>
          \<lparr>fr_err = Some (Returned e), fr_cakes = cakes1,
           fr_trace = EventBegin ''FlipPancakes'' # t1 @ FlipPancakes_deferred (Some (Returned e))\<rparr>
      | (cakes1, None, t1) \<Rightarrow>
          (case burnt_range M 0 cakes1 of
             (burnt, t2) \<Rightarrow>
               (let err = (if burnt then Some (errors_New ''Burnt Pancake'') else None)
                in \<lparr>fr_err = err, fr_cakes = cakes1,
                    fr_trace = EventBegin ''FlipPancakes'' # t1 @ Sleep # t2 @ FlipPancakes_deferred err\<rparr>)))"

subsection \<open>Stage 2: the select statement\<close>

text \<open>
  \<^verbatim>\<open>
  select {
  // Send off our perfect pancakes
  case out <- cakes[p]:
  case <-ctx.Done():
      return
  }
  \<close>
  \<open>out\<close> is unbuffered, so the send can proceed only when a receiver is waiting, and
  the receive from \<open>ctx.Done()\<close> only once the context is cancelled. The statement blocks
  until one of them can proceed; when both can, the Go runtime picks one by a
  pseudo-random choice. What the surroundings offer at the \<open>select\<close> of item \<open>p\<close> is an
  input of the model.
\<close>

datatype select_env =
    ReceiverReady     \<comment> \<open>a receiver takes the item; the context is not cancelled\<close>
  | ContextDone       \<comment> \<open>the context is cancelled; no receiver is waiting\<close>
  | BothReady bool    \<comment> \<open>both can proceed; \<open>True\<close>: the runtime picks the send\<close>
  | NeitherEver       \<comment> \<open>no receiver ever comes and the context is never cancelled\<close>

datatype select_result = SendCase | DoneCase | Blocks

fun select_case :: "select_env \<Rightarrow> select_result" where
  "select_case ReceiverReady = SendCase"
| "select_case ContextDone = DoneCase"
| "select_case (BothReady pick_send) = (if pick_send then SendCase else DoneCase)"
| "select_case NeitherEver = Blocks"

text \<open>The context was already cancelled when the \<open>select\<close> was reached.\<close>

fun cancelled :: "select_env \<Rightarrow> bool" where
  "cancelled ReceiverReady = False"
| "cancelled ContextDone = True"
| "cancelled (BothReady pick_send) = True"
| "cancelled NeitherEver = False"

subsection \<open>Stage 2: SyrupPancakes, first version\<close>

text \<open>How the goroutine leaves its loop.\<close>

datatype exit =
    LoopExhausted       \<comment> \<open>\<open>range cakes\<close> is through\<close>
  | DoneReturn          \<comment> \<open>the \<open>return\<close> of \<open>case <-ctx.Done()\<close>\<close>
  | NoMistakesReturn    \<comment> \<open>the \<open>return\<close> of \<open>if len(mistakes) == 0\<close>\<close>
  | NeverReturns        \<comment> \<open>blocked in the \<open>select\<close> for ever\<close>

record ('p, 'e) producer =
  pr_exit :: exit
  pr_cakes :: "'p list"                   \<comment> \<open>the batch as the goroutine leaves it\<close>
  pr_mistakes :: "'p list"                \<comment> \<open>\<open>mistakes\<close>\<close>
  pr_trace :: "('p, 'e) action list"

definition stopped ::
  "exit \<Rightarrow> 'p list \<Rightarrow> 'p list \<Rightarrow> ('p, 'e) action list \<Rightarrow> ('p, 'e) producer"
where
  "stopped x cakes mistakes t =
     \<lparr>pr_exit = x, pr_cakes = cakes, pr_mistakes = mistakes, pr_trace = t\<rparr>"

text \<open>One more round of the loop came first: it left the item \<open>c\<close> and performed \<open>t\<close>.\<close>

definition after_item ::
  "'p \<Rightarrow> ('p, 'e) action list \<Rightarrow> ('p, 'e) producer \<Rightarrow> ('p, 'e) producer"
where
  "after_item c t r = r\<lparr>pr_cakes := c # pr_cakes r, pr_trace := t @ pr_trace r\<rparr>"

text \<open>
  \<^verbatim>\<open>
  var mistakes []breakfast.Pancake
  for p := range cakes {
      if err := cakes[p].Syrup(); err != nil {
          fmt.Errorf("Ohh no, soggy pancakes!")
          mistakes = append(mistakes, cakes[p])
          continue
      }
      select { ... }
      if len(mistakes) == 0 {
          return
      } else {
          // fix your pancakes...
      }
  }
  \<close>
  The loop from index \<open>p\<close> on, with the mistakes made so far. The value of
  \<open>fmt.Errorf\<close> is dropped, as in the source.
\<close>

fun SyrupPancakes_loop ::
  "('p, 'e) Pancake_methods \<Rightarrow> (nat \<Rightarrow> select_env) \<Rightarrow> nat \<Rightarrow> 'p list \<Rightarrow> 'p list
     \<Rightarrow> ('p, 'e) producer"
where
  "SyrupPancakes_loop M env p [] mistakes = stopped LoopExhausted [] mistakes []"
| "SyrupPancakes_loop M env p (c # cs) mistakes =
     (case Syrup M c of
        (c', Some e) \<Rightarrow>
          (let dropped = (fmt_Errorf ''Ohh no, soggy pancakes!'' :: 'e error)
           in after_item c' [SyrupCall p]
                (SyrupPancakes_loop M env (Suc p) cs (mistakes @ [c'])))
      | (c', None) \<Rightarrow>
          (case select_case (env p) of
             DoneCase \<Rightarrow> stopped DoneReturn (c' # cs) mistakes [SyrupCall p]
           | Blocks \<Rightarrow> stopped NeverReturns (c' # cs) mistakes [SyrupCall p]
           | SendCase \<Rightarrow>
               (if length mistakes = 0
                then stopped NoMistakesReturn (c' # cs) mistakes [SyrupCall p, Send c']
                else after_item c' [SyrupCall p, Send c']
                       (SyrupPancakes_loop M env (Suc p) cs mistakes))))"

text \<open>
  \<^verbatim>\<open>
  defer logging.MaybeFinishEvent(ctx)
  defer close(out)
  \<close>
  Deferred calls run last-in-first-out when the goroutine's function returns: the
  channel is closed, then the event is finished. A goroutine that never returns runs
  neither.
\<close>

definition goroutine ::
  "Context \<Rightarrow> ('p, 'e) producer \<Rightarrow> ('p, 'e) producer"
where
  "goroutine ctx r =
     (if pr_exit r = NeverReturns then r
      else r\<lparr>pr_trace := pr_trace r @ CloseChan # MaybeFinishEvent ctx\<rparr>)"

text \<open>
  What a call of Stage 2 amounts to: the actions on the caller's side up to the
  \<open>return out\<close>, and the goroutine behind \<open>out\<close>. The result of the Go function is the
  channel alone: its type has no error.
\<close>

record ('p, 'e) stage2 =
  s2_caller :: "('p, 'e) action list"
  s2_goroutine :: "('p, 'e) producer"

definition SyrupPancakes ::
  "('p, 'e) Pancake_methods \<Rightarrow> (nat \<Rightarrow> select_env) \<Rightarrow> Context \<Rightarrow> 'p list \<Rightarrow> ('p, 'e) stage2"
where
  "SyrupPancakes M env ctx cakes =
     (case EventBeginInContext ctx ''PancakeReady'' of
        (ctx', t) \<Rightarrow>
          \<lparr>s2_caller = t @ [MakeChan, GoStmt],
           s2_goroutine = goroutine ctx' (SyrupPancakes_loop M env 0 cakes [])\<rparr>)"

subsection \<open>Stage 2: second version, with the helper syrupPancakes\<close>

fun syrupPancakes_loop ::
  "('p, 'e) Pancake_methods \<Rightarrow> (nat \<Rightarrow> select_env) \<Rightarrow> nat \<Rightarrow> 'p list \<Rightarrow> 'p list
     \<Rightarrow> ('p, 'e) producer"
where
  "syrupPancakes_loop M env p [] mistakes = stopped LoopExhausted [] mistakes []"
| "syrupPancakes_loop M env p (c # cs) mistakes =
     (case Syrup M c of
        (c', Some e) \<Rightarrow>
          (let dropped = (fmt_Errorf ''Ohh no, soggy pancakes!'' :: 'e error)
           in after_item c' [SyrupCall p]
                (syrupPancakes_loop M env (Suc p) cs (mistakes @ [c'])))
      | (c', None) \<Rightarrow>
          (case select_case (env p) of
             SendCase \<Rightarrow>
               (if length mistakes = 0
                then stopped NoMistakesReturn (c' # cs) mistakes [SyrupCall p, Send c']
                else after_item c' [SyrupCall p, Send c']
                       (syrupPancakes_loop M env (Suc p) cs mistakes))
           | DoneCase \<Rightarrow> stopped DoneReturn (c' # cs) mistakes [SyrupCall p]
           | Blocks \<Rightarrow> stopped NeverReturns (c' # cs) mistakes [SyrupCall p]))"

text \<open>
  \<^verbatim>\<open>
  func syrupPancakes(ctx context.Context, cakes []breakfast.Pancake) <-chan breakfast.Pancake {
      out := make(chan breakfast.Pancake)
      go func() { ... }()
      return out
  }
  \<close>
\<close>

definition syrupPancakes ::
  "('p, 'e) Pancake_methods \<Rightarrow> (nat \<Rightarrow> select_env) \<Rightarrow> Context \<Rightarrow> 'p list \<Rightarrow> ('p, 'e) stage2"
where
  "syrupPancakes M env ctx cakes =
     \<lparr>s2_caller = [MakeChan, GoStmt],
      s2_goroutine = goroutine ctx (syrupPancakes_loop M env 0 cakes [])\<rparr>"

text \<open>
  \<^verbatim>\<open>
  func SyrupPancakes(ctx context.Context, cakes []breakfast.Pancake) <-chan breakfast.Pancake {
      ctx = log.EventBeginInContext(ctx, "PancakeReady")
      return syrupPancakes(ctx, cakes)
  }
  \<close>
\<close>

definition SyrupPancakes_v2 ::
  "('p, 'e) Pancake_methods \<Rightarrow> (nat \<Rightarrow> select_env) \<Rightarrow> Context \<Rightarrow> 'p list \<Rightarrow> ('p, 'e) stage2"
where
  "SyrupPancakes_v2 M env ctx cakes =
     (case EventBeginInContext ctx ''PancakeReady'' of
        (ctx', t) \<Rightarrow>
          (let r = syrupPancakes M env ctx' cakes
           in r\<lparr>s2_caller := t @ s2_caller r\<rparr>))"

subsection \<open>The consumer and the coordinator\<close>

text \<open>
  \<^verbatim>\<open>
  func EatPancakes(<-chan breakfast.Pancake) {
      return
  }
  \<close>
  The parameter has no name and the body is a \<open>return\<close>: no receive is performed. The
  result of the model is the list of what the receives of the function yielded.
\<close>

datatype 'p received =
    Item 'p           \<comment> \<open>a receive that yielded an item\<close>
  | ChannelClosed     \<comment> \<open>a receive that found the channel closed\<close>

definition EatPancakes :: "('p, 'e) stage2 \<Rightarrow> 'p received list" where
  "EatPancakes ready = []"

text \<open>
  What a consumer that drains the stream to completion receives: every emitted item,
  then the close. This follows the spec's words, to compare \<open>EatPancakes\<close> with.
\<close>

definition drained :: "('p, 'e) stage2 \<Rightarrow> 'p received list" where
  "drained ready = map Item (emitted (pr_trace (s2_goroutine ready))) @ [ChannelClosed]"

record ('p, 'e) serve_result =
  sb_err :: "'e error option"
  sb_trace :: "('p, 'e) action list"         \<comment> \<open>the caller's side, deferred calls last\<close>
  sb_stage2 :: "('p, 'e) stage2 option"      \<comment> \<open>the call of Stage 2, if it was made\<close>
  sb_eaten :: "'p received list option"      \<comment> \<open>the call of the consumer, if it was made\<close>

text \<open>
  \<open>ServeBreakfast\<close>, with \<open>breakfast.MakePancakes\<close> as a parameter. The deferred calls run
  last-in-first-out on every return: \<open>rootSpan.Finish()\<close>, then \<open>cancel()\<close>.

  The receiving end \<open>ready\<close> goes to \<open>EatPancakes\<close> and nowhere else, and \<open>EatPancakes\<close>
  never receives: no send of the goroutine can proceed. The context of the goroutine
  derives from the one \<open>cancel()\<close> cancels, so every \<open>select\<close> the goroutine reaches is
  released by \<open>ctx.Done()\<close>: its surroundings are \<open>ContextDone\<close> throughout.
\<close>

definition ServeBreakfast ::
  "('p, 'e) Pancake_methods \<Rightarrow> (nat \<Rightarrow> 'p list) \<Rightarrow> ('p, 'e) serve_result"
where
  "ServeBreakfast M MakePancakes =
     (let ctx = ContextWithSpan Background ''ServeHotCakes'';
          cakes = MakePancakes 3;
          begun = [WithCancel, StartSpan ''ServeHotCakes'', MakePancakesCall 3];
          deferred = [SpanFinish ''ServeHotCakes'', CancelCall];
          flipped = FlipPancakes M ctx cakes
      in case fr_err flipped of
           Some err \<Rightarrow>
             \<lparr>sb_err = Some err, sb_trace = begun @ fr_trace flipped @ deferred,
              sb_stage2 = None, sb_eaten = None\<rparr>
         | None \<Rightarrow>
             (let ready = SyrupPancakes M (\<lambda>p. ContextDone) ctx (fr_cakes flipped);
                  eaten = EatPancakes ready
              in \<lparr>sb_err = None,
                  sb_trace = begun @ fr_trace flipped @ s2_caller ready @ EatPancakesCall # deferred,
                  sb_stage2 = Some ready, sb_eaten = Some eaten\<rparr>))"

subsection \<open>A sample Pancake for concrete runs\<close>

text \<open>
  A stand-in for the imported type: each pancake says how its calls will go, and counts
  the calls of \<open>Flip\<close> and \<open>Syrup\<close> made on it.
\<close>

record pancake =
  drops :: bool       \<comment> \<open>\<open>Flip\<close> fails\<close>
  burns :: bool       \<comment> \<open>\<open>IsBurnt\<close> holds after the wait\<close>
  soggy :: bool       \<comment> \<open>\<open>Syrup\<close> fails\<close>
  flips :: nat
  syrups :: nat

definition cake :: "bool \<Rightarrow> bool \<Rightarrow> bool \<Rightarrow> pancake" where
  "cake d b s = \<lparr>drops = d, burns = b, soggy = s, flips = 0, syrups = 0\<rparr>"

text \<open>The same surroundings at every \<open>select\<close>, and batches of one kind of pancake.\<close>

definition always :: "select_env \<Rightarrow> nat \<Rightarrow> select_env" where
  "always s p = s"

definition good_cakes :: "nat \<Rightarrow> pancake list" where
  "good_cakes n = replicate n (cake False False False)"

definition second_drops :: "nat \<Rightarrow> pancake list" where
  "second_drops n = (good_cakes n)[1 := cake True False False]"

definition sample :: "(pancake, string) Pancake_methods" where
  "sample =
     \<lparr>Flip = (\<lambda>c. (c\<lparr>flips := Suc (flips c)\<rparr>, if drops c then Some ''dropped'' else None)),
      IsBurnt = burns,
      Syrup = (\<lambda>c. (c\<lparr>syrups := Suc (syrups c)\<rparr>, if soggy c then Some ''soggy'' else None))\<rparr>"

section \<open>Properties\<close>

lemma flip_calls_append: "flip_calls (xs @ ys) = flip_calls xs @ flip_calls ys"
  by (induction xs rule: flip_calls.induct) simp_all

lemma flip_calls_map: "flip_calls (map FlipCall ps) = ps"
  by (induction ps) simp_all

lemma flip_range_first_failure:
  assumes "k < length cakes"
    and "\<forall>i<k. snd (Flip M (cakes ! i)) = None"
    and "snd (Flip M (cakes ! k)) = Some e"
  shows "flip_range M p cakes =
    (map (fst \<circ> Flip M) (take (Suc k) cakes) @ drop (Suc k) cakes, Some e,
     map FlipCall [p..<p + Suc k])"
  using assms
proof (induction cakes arbitrary: p k)
  case Nil
  then show ?case by simp
next
  case (Cons c cs)
  show ?case
  proof (cases k)
    case 0
    with Cons.prems show ?thesis
      by (cases "Flip M c") (simp add: upt_rec)
  next
    case (Suc j)
    from Cons.prems Suc have c: "snd (Flip M c) = None" by auto
    from Cons.prems Suc have j: "j < length cs" "\<forall>i<j. snd (Flip M (cs ! i)) = None"
      "snd (Flip M (cs ! j)) = Some e" by auto
    have ih: "flip_range M (Suc p) cs =
      (map (fst \<circ> Flip M) (take (Suc j) cs) @ drop (Suc j) cs, Some e,
       map FlipCall [Suc p..<Suc p + Suc j])"
      using Cons.IH [OF j] .
    have "[p..<p + Suc k] = p # [Suc p..<Suc p + Suc j]"
      using Suc by (simp add: upt_rec)
    with c ih Suc show ?thesis
      by (cases "Flip M c") simp
  qed
qed

lemma flip_range_all_ok:
  "\<forall>c\<in>set cakes. snd (Flip M c) = None \<Longrightarrow>
   flip_range M p cakes = (map (fst \<circ> Flip M) cakes, None, map FlipCall [p..<p + length cakes])"
proof (induction cakes arbitrary: p)
  case Nil
  then show ?case by simp
next
  case (Cons c cs)
  have "[p..<p + length (c # cs)] = p # [Suc p..<Suc p + length cs]"
    by (simp add: upt_rec)
  with Cons show ?case
    by (cases "Flip M c") simp
qed

lemma burnt_range_found: "fst (burnt_range M p cs) = (\<exists>c\<in>set cs. IsBurnt M c)"
  by (induction M p cs rule: burnt_range.induct) (auto split: prod.splits)

lemma burnt_range_flip_calls: "flip_calls (snd (burnt_range M p cs)) = []"
  by (induction M p cs rule: burnt_range.induct) (auto split: prod.splits)

lemma burnt_range_done_events: "done_events (snd (burnt_range M p cs)) = []"
  by (induction M p cs rule: burnt_range.induct) (auto split: prod.splits)

lemma done_events_append: "done_events (xs @ ys) = done_events xs @ done_events ys"
  by (induction xs rule: done_events.induct) simp_all

lemma flip_range_done_events: "done_events (snd (snd (flip_range M p cs))) = []"
  by (induction M p cs rule: flip_range.induct) (auto split: prod.splits option.splits)

text \<open>
  Claim C2. When item \<open>k\<close> is the first one whose \<open>Flip\<close> fails, \<open>FlipPancakes\<close> returns
  that error at once: after the call on item \<open>k\<close> it only tags and finishes its event.
  \<open>Flip\<close> was called on the items \<open>0..k\<close> and on no other; the items before \<open>k\<close> stay
  flipped, item \<open>k\<close> is as its failed call left it, the items after \<open>k\<close> are untouched.
\<close>
theorem FlipPancakes_fail_fast:
  assumes "k < length cakes"
    and "\<forall>i<k. snd (Flip M (cakes ! i)) = None"
    and "snd (Flip M (cakes ! k)) = Some e"
  shows "fr_err (FlipPancakes M ctx cakes) = Some (Returned e)
    \<and> fr_trace (FlipPancakes M ctx cakes) =
        EventBegin ''FlipPancakes'' # map FlipCall [0..<Suc k]
          @ [SetError (Returned e), EventDone ''FlipPancakes'']
    \<and> flip_calls (fr_trace (FlipPancakes M ctx cakes)) = [0..<Suc k]
    \<and> fr_cakes (FlipPancakes M ctx cakes) =
        map (fst \<circ> Flip M) (take k cakes) @ fst (Flip M (cakes ! k)) # drop (Suc k) cakes"
proof -
  have r: "flip_range M 0 cakes =
    (map (fst \<circ> Flip M) (take (Suc k) cakes) @ drop (Suc k) cakes, Some e,
     map FlipCall [0..<0 + Suc k])"
    using assms by (rule flip_range_first_failure)
  have t: "take (Suc k) cakes = take k cakes @ [cakes ! k]"
    using assms(1) by (simp add: take_Suc_conv_app_nth)
  show ?thesis
    unfolding FlipPancakes_def r FlipPancakes_deferred_def t
    by (simp add: flip_calls_append flip_calls_map del: upt_Suc)
qed

text \<open>
  Claim C3. When every \<open>Flip\<close> succeeds and some flipped item is burnt after the wait,
  \<open>FlipPancakes\<close> returns the error made by \<open>errors.New("Burnt Pancake")\<close>, which is not
  an error returned by a \<open>Flip\<close> call, and all the items of the batch were flipped.
\<close>
theorem FlipPancakes_burnt:
  assumes "\<forall>c\<in>set cakes. snd (Flip M c) = None"
    and "\<exists>c\<in>set cakes. IsBurnt M (fst (Flip M c))"
  shows "fr_err (FlipPancakes M ctx cakes) = Some (errors_New ''Burnt Pancake'')
    \<and> (\<forall>e. fr_err (FlipPancakes M ctx cakes) \<noteq> Some (Returned e))
    \<and> fr_cakes (FlipPancakes M ctx cakes) = map (fst \<circ> Flip M) cakes
    \<and> flip_calls (fr_trace (FlipPancakes M ctx cakes)) = [0..<length cakes]"
proof -
  have r: "flip_range M 0 cakes =
    (map (fst \<circ> Flip M) cakes, None, map FlipCall [0..<0 + length cakes])"
    using assms(1) by (rule flip_range_all_ok)
  obtain b t where bt: "burnt_range M 0 (map (fst \<circ> Flip M) cakes) = (b, t)"
    by (cases "burnt_range M 0 (map (fst \<circ> Flip M) cakes)")
  have "b = (\<exists>c\<in>set (map (fst \<circ> Flip M) cakes). IsBurnt M c)"
    using burnt_range_found [of M 0 "map (fst \<circ> Flip M) cakes"] bt by simp
  with assms(2) have b: "b" by auto
  have ft: "flip_calls t = []"
    using burnt_range_flip_calls [of M 0 "map (fst \<circ> Flip M) cakes"] bt by simp
  show ?thesis
    unfolding FlipPancakes_def r
    by (simp add: bt b ft FlipPancakes_deferred_def flip_calls_append flip_calls_map)
qed

theorem FlipPancakes_fail_fast_witness:
  "fr_err (FlipPancakes sample Background
      [cake False False False, cake True False False, cake False False False])
     = Some (Returned ''dropped'')
   \<and> flip_calls (fr_trace (FlipPancakes sample Background
      [cake False False False, cake True False False, cake False False False])) = [0, 1]
   \<and> map flips (fr_cakes (FlipPancakes sample Background
      [cake False False False, cake True False False, cake False False False])) = [1, 1, 0]"
  using FlipPancakes_fail_fast [of 1 "[cake False False False, cake True False False, cake False False False]"
      sample "''dropped''" Background]
  by (simp add: sample_def cake_def)

theorem FlipPancakes_burnt_witness:
  "fr_err (FlipPancakes sample Background
      [cake False False False, cake False True False, cake False False False])
     = Some (errors_New ''Burnt Pancake'')
   \<and> map flips (fr_cakes (FlipPancakes sample Background
      [cake False False False, cake False True False, cake False False False])) = [1, 1, 1]"
  using FlipPancakes_burnt [of "[cake False False False, cake False True False, cake False False False]"
      sample Background]
  by (simp add: sample_def cake_def)

lemma pr_after_item [simp]:
  "pr_exit (after_item c t r) = pr_exit r"
  "pr_mistakes (after_item c t r) = pr_mistakes r"
  "pr_cakes (after_item c t r) = c # pr_cakes r"
  "pr_trace (after_item c t r) = t @ pr_trace r"
  by (simp_all add: after_item_def)

lemma pr_stopped [simp]:
  "pr_exit (stopped x cs ms t) = x"
  "pr_mistakes (stopped x cs ms t) = ms"
  "pr_cakes (stopped x cs ms t) = cs"
  "pr_trace (stopped x cs ms t) = t"
  by (simp_all add: stopped_def)

lemma syrup_calls_append: "syrup_calls (xs @ ys) = syrup_calls xs @ syrup_calls ys"
  by (induction xs rule: syrup_calls.induct) simp_all

lemma emitted_append: "emitted (xs @ ys) = emitted xs @ emitted ys"
  by (induction xs rule: emitted.induct) simp_all

lemma loop_fail:
  "Syrup M c = (c', Some e) \<Longrightarrow>
   SyrupPancakes_loop M env p (c # cs) ms =
     after_item c' [SyrupCall p] (SyrupPancakes_loop M env (Suc p) cs (ms @ [c']))"
  by simp

lemma loop_done:
  "Syrup M c = (c', None) \<Longrightarrow> select_case (env p) = DoneCase \<Longrightarrow>
   SyrupPancakes_loop M env p (c # cs) ms = stopped DoneReturn (c' # cs) ms [SyrupCall p]"
  by simp

lemma loop_blocks:
  "Syrup M c = (c', None) \<Longrightarrow> select_case (env p) = Blocks \<Longrightarrow>
   SyrupPancakes_loop M env p (c # cs) ms = stopped NeverReturns (c' # cs) ms [SyrupCall p]"
  by simp

lemma loop_first:
  "Syrup M c = (c', None) \<Longrightarrow> select_case (env p) = SendCase \<Longrightarrow>
   SyrupPancakes_loop M env p (c # cs) [] =
     stopped NoMistakesReturn (c' # cs) [] [SyrupCall p, Send c']"
  by simp

lemma loop_more:
  "Syrup M c = (c', None) \<Longrightarrow> select_case (env p) = SendCase \<Longrightarrow> ms \<noteq> [] \<Longrightarrow>
   SyrupPancakes_loop M env p (c # cs) ms =
     after_item c' [SyrupCall p, Send c'] (SyrupPancakes_loop M env (Suc p) cs ms)"
  by simp

lemma loop_cases [case_names Nil Fail Done Blocks First More]:
  assumes "\<And>p ms. P p [] ms"
    and "\<And>p c cs ms c' e. Syrup M c = (c', Some e) \<Longrightarrow> P (Suc p) cs (ms @ [c']) \<Longrightarrow> P p (c # cs) ms"
    and "\<And>p c cs ms c'. Syrup M c = (c', None) \<Longrightarrow> select_case (env p) = DoneCase \<Longrightarrow> P p (c # cs) ms"
    and "\<And>p c cs ms c'. Syrup M c = (c', None) \<Longrightarrow> select_case (env p) = Blocks \<Longrightarrow> P p (c # cs) ms"
    and "\<And>p c cs c'. Syrup M c = (c', None) \<Longrightarrow> select_case (env p) = SendCase \<Longrightarrow> P p (c # cs) []"
    and "\<And>p c cs ms c'. Syrup M c = (c', None) \<Longrightarrow> select_case (env p) = SendCase \<Longrightarrow>
           ms \<noteq> [] \<Longrightarrow> P (Suc p) cs ms \<Longrightarrow> P p (c # cs) ms"
  shows "P p cs ms"
proof (induction cs arbitrary: p ms)
  case Nil
  show ?case by (rule assms(1))
next
  case (Cons c cs p ms)
  obtain c' r where s: "Syrup M c = (c', r)" by (cases "Syrup M c")
  show ?case
  proof (cases r)
    case (Some e)
    with s Cons show ?thesis by (intro assms(2)) simp_all
  next
    case None
    show ?thesis
    proof (cases "select_case (env p)")
      case DoneCase
      with s None show ?thesis by (intro assms(3)) simp_all
    next
      case Blocks
      with s None show ?thesis by (intro assms(4)) simp_all
    next
      case SendCase
      show ?thesis
      proof (cases "ms = []")
        case True
        with s None SendCase show ?thesis using assms(5) by simp
      next
        case False
        with s None SendCase Cons show ?thesis by (intro assms(6)) simp_all
      qed
    qed
  qed
qed

declare SyrupPancakes_loop.simps(2) [simp del]

lemmas loop_simps = loop_fail loop_done loop_blocks loop_first loop_more

lemma loop_versions_agree:
  "syrupPancakes_loop M env p cs ms = SyrupPancakes_loop M env p cs ms"
  by (induction p cs ms rule: loop_cases [where M = M and env = env])
    (simp_all add: loop_simps)

text \<open>
  Claim C10. The two versions of Stage 2, the inline \<open>SyrupPancakes\<close> and the wrapper
  around \<open>syrupPancakes\<close>, do the same for every context, batch and surroundings: the
  same actions of the caller, the same goroutine with the same emissions, mistakes,
  batch, exit and event actions.
\<close>
theorem SyrupPancakes_versions_agree:
  "SyrupPancakes_v2 M env ctx cakes = SyrupPancakes M env ctx cakes"
  by (simp add: SyrupPancakes_v2_def SyrupPancakes_def syrupPancakes_def
      loop_versions_agree split: prod.splits)

lemma loop_mistakes_prefix:
  "\<exists>ms'. pr_mistakes (SyrupPancakes_loop M env p cs ms) = ms @ ms'"
  by (induction p cs ms rule: loop_cases [where M = M and env = env])
    (auto simp: loop_simps)

lemma loop_no_early_exit:
  "ms \<noteq> [] \<Longrightarrow> pr_exit (SyrupPancakes_loop M env p cs ms) \<noteq> NoMistakesReturn"
  by (induction p cs ms rule: loop_cases [where M = M and env = env])
    (simp_all add: loop_simps)

lemma upt_step: "[p..<Suc (p + n)] = p # [Suc p..<Suc (p + n)]"
  by (simp add: upt_conv_Cons)

lemma loop_exhausted:
  "ms \<noteq> [] \<Longrightarrow> pr_exit (SyrupPancakes_loop M env p cs ms) = LoopExhausted \<Longrightarrow>
   syrup_calls (pr_trace (SyrupPancakes_loop M env p cs ms)) = [p..<p + length cs]
   \<and> emitted (pr_trace (SyrupPancakes_loop M env p cs ms)) =
       map (fst \<circ> Syrup M) (filter (\<lambda>x. snd (Syrup M x) = None) cs)"
  by (induction p cs ms rule: loop_cases [where M = M and env = env])
    (simp_all add: loop_simps upt_step del: upt_Suc)

lemma loop_done_return:
  "pr_exit (SyrupPancakes_loop M env p cs ms) = DoneReturn \<Longrightarrow>
   \<exists>q. p \<le> q \<and> q < p + length cs \<and> select_case (env q) = DoneCase"
proof (induction p cs ms rule: loop_cases [where M = M and env = env])
  case (Fail p c cs ms c' e)
  then obtain q where "Suc p \<le> q" "q < Suc p + length cs" "select_case (env q) = DoneCase"
    by (auto simp: loop_simps)
  then show ?case by (intro exI [of _ q]) simp
next
  case (Done p c cs ms c')
  then show ?case by (intro exI [of _ p]) simp
next
  case (More p c cs ms c')
  then obtain q where "Suc p \<le> q" "q < Suc p + length cs" "select_case (env q) = DoneCase"
    by (auto simp: loop_simps)
  then show ?case by (intro exI [of _ q]) simp
qed (simp_all add: loop_simps)

lemma loop_no_close:
  "CloseChan \<notin> set (pr_trace (SyrupPancakes_loop M env p cs ms))"
  by (induction p cs ms rule: loop_cases [where M = M and env = env])
    (simp_all add: loop_simps)

lemma loop_done_events:
  "done_events (pr_trace (SyrupPancakes_loop M env p cs ms)) = []"
  by (induction p cs ms rule: loop_cases [where M = M and env = env])
    (simp_all add: loop_simps)

lemma loop_first_call:
  "take 1 (syrup_calls (pr_trace (SyrupPancakes_loop M env p (c # cs) ms))) = [p]"
  by (cases "Syrup M c"; cases "snd (Syrup M c)"; cases "select_case (env p)"; cases "ms = []")
    (simp_all add: loop_simps)

lemma loop_cancelled:
  "\<forall>p. select_case (env p) = DoneCase \<Longrightarrow>
   emitted (pr_trace (SyrupPancakes_loop M env p cs ms)) = []
   \<and> pr_exit (SyrupPancakes_loop M env p cs ms) \<in> {DoneReturn, LoopExhausted}"
  by (induction p cs ms rule: loop_cases [where M = M and env = env])
    (simp_all add: loop_simps)

lemma pr_goroutine [simp]:
  "pr_exit (goroutine ctx r) = pr_exit r"
  "pr_mistakes (goroutine ctx r) = pr_mistakes r"
  "pr_cakes (goroutine ctx r) = pr_cakes r"
  "pr_trace (goroutine ctx r) =
     (if pr_exit r = NeverReturns then pr_trace r
      else pr_trace r @ CloseChan # MaybeFinishEvent ctx)"
  by (simp_all add: goroutine_def)

lemma s2_SyrupPancakes [simp]:
  "s2_caller (SyrupPancakes M env ctx cakes) = [EventBegin ''PancakeReady'', MakeChan, GoStmt]"
  "s2_goroutine (SyrupPancakes M env ctx cakes) =
     goroutine (ctx\<lparr>ctx_event := Some ''PancakeReady''\<rparr>) (SyrupPancakes_loop M env 0 cakes [])"
  by (simp_all add: SyrupPancakes_def EventBeginInContext_def)

lemma MaybeFinishEvent_begun [simp]:
  "MaybeFinishEvent (ctx\<lparr>ctx_event := Some name\<rparr>) = [EventDone name]"
  by (simp add: MaybeFinishEvent_def)

text \<open>
  Claim C1, amended. For a batch that is not empty, in which every \<open>Syrup\<close> succeeds, and
  whose first \<open>select\<close> takes the send: the goroutine calls \<open>Syrup\<close> on the first item,
  emits that item as \<open>Syrup\<close> left it, closes the channel and finishes the event. Nothing
  else is emitted and no other item is tried.
\<close>
theorem SyrupPancakes_all_succeed:
  assumes "cakes \<noteq> []"
    and "\<forall>c\<in>set cakes. snd (Syrup M c) = None"
    and "select_case (env 0) = SendCase"
  shows "pr_trace (s2_goroutine (SyrupPancakes M env ctx cakes)) =
      [SyrupCall 0, Send (fst (Syrup M (hd cakes))), CloseChan, EventDone ''PancakeReady'']
    \<and> emitted (pr_trace (s2_goroutine (SyrupPancakes M env ctx cakes))) = [fst (Syrup M (hd cakes))]
    \<and> syrup_calls (pr_trace (s2_goroutine (SyrupPancakes M env ctx cakes))) = [0]
    \<and> pr_exit (s2_goroutine (SyrupPancakes M env ctx cakes)) = NoMistakesReturn
    \<and> pr_cakes (s2_goroutine (SyrupPancakes M env ctx cakes)) = fst (Syrup M (hd cakes)) # tl cakes"
proof -
  from assms(1) obtain c cs where cakes: "cakes = c # cs" by (cases cakes) auto
  with assms(2) have "snd (Syrup M c) = None" by simp
  then have c: "Syrup M c = (fst (Syrup M c), None)" by (cases "Syrup M c") simp
  have "SyrupPancakes_loop M env 0 cakes [] =
      stopped NoMistakesReturn (fst (Syrup M c) # cs) [] [SyrupCall 0, Send (fst (Syrup M c))]"
    unfolding cakes using c assms(3) by (rule loop_first)
  then show ?thesis by (simp add: cakes)
qed

theorem SyrupPancakes_all_succeed_witness:
  "pr_trace (s2_goroutine (SyrupPancakes sample (always ReceiverReady) Background (good_cakes 3))) =
      [SyrupCall 0, Send ((cake False False False)\<lparr>syrups := 1\<rparr>), CloseChan, EventDone ''PancakeReady'']
   \<and> map syrups (pr_cakes (s2_goroutine (SyrupPancakes sample (always ReceiverReady) Background (good_cakes 3))))
      = [1, 0, 0]"
  using SyrupPancakes_all_succeed [of "good_cakes 3" sample "always ReceiverReady" Background]
  by (simp add: good_cakes_def sample_def cake_def always_def eval_nat_numeral
      SyrupPancakes_loop.simps)

text \<open>
  Claim C1 as stated fails: with every \<open>Syrup\<close> succeeding, the empty batch emits
  nothing, and a batch of three emits nothing when the \<open>select\<close> is released by
  \<open>ctx.Done()\<close>.
\<close>
theorem SyrupPancakes_all_succeed_counterexample:
  "snd (Syrup sample (cake False False False)) = None
   \<and> emitted (pr_trace (s2_goroutine (SyrupPancakes sample (always ReceiverReady) Background (good_cakes 0)))) = []
   \<and> emitted (pr_trace (s2_goroutine (SyrupPancakes sample (always ContextDone) Background (good_cakes 3)))) = []"
  by (simp add: good_cakes_def sample_def cake_def always_def eval_nat_numeral
      SyrupPancakes_loop.simps)

text \<open>
  Claim C4. \<open>FlipPancakes\<close> finishes its event exactly once on every return, and when it
  returns an error the event is tagged with that error right before it is finished.
  The caller's side of \<open>SyrupPancakes\<close> does not finish the event of Stage 2; the
  goroutine finishes it exactly once whenever it returns (loop through, early return or
  cancellation), and never when it does not return.
\<close>
theorem event_closed_once:
  "done_events (fr_trace (FlipPancakes M ctx cakes)) = [''FlipPancakes'']
   \<and> (\<forall>err. fr_err (FlipPancakes M ctx cakes) = Some err \<longrightarrow>
        (\<exists>t. fr_trace (FlipPancakes M ctx cakes) = t @ [SetError err, EventDone ''FlipPancakes'']
           \<and> done_events t = []))
   \<and> done_events (s2_caller (SyrupPancakes M env ctx' cakes')) = []
   \<and> done_events (pr_trace (s2_goroutine (SyrupPancakes M env ctx' cakes'))) =
       (if pr_exit (s2_goroutine (SyrupPancakes M env ctx' cakes')) = NeverReturns then []
        else [''PancakeReady''])"
proof -
  obtain cs r t where f: "flip_range M 0 cakes = (cs, r, t)"
    by (cases "flip_range M 0 cakes")
  obtain b u where g: "burnt_range M 0 cs = (b, u)"
    by (cases "burnt_range M 0 cs")
  have t: "done_events t = []"
    using flip_range_done_events [of M 0 cakes] f by simp
  have u: "done_events u = []"
    using burnt_range_done_events [of M 0 cs] g by simp
  have 1: "done_events (fr_trace (FlipPancakes M ctx cakes)) = [''FlipPancakes'']"
    by (cases r) (simp_all add: FlipPancakes_def f g t u Let_def FlipPancakes_deferred_def
        done_events_append)
  have 2: "\<exists>s. fr_trace (FlipPancakes M ctx cakes) = s @ [SetError err, EventDone ''FlipPancakes'']
      \<and> done_events s = []" if "fr_err (FlipPancakes M ctx cakes) = Some err" for err
  proof (cases r)
    case (Some e)
    with that have "err = Returned e" by (simp add: FlipPancakes_def f)
    with Some show ?thesis
      by (intro exI [of _ "EventBegin ''FlipPancakes'' # t"])
        (simp add: FlipPancakes_def f FlipPancakes_deferred_def t)
  next
    case None
    with that have "b" "err = errors_New ''Burnt Pancake''"
      by (simp_all add: FlipPancakes_def f g Let_def split: if_splits)
    with None show ?thesis
      by (intro exI [of _ "EventBegin ''FlipPancakes'' # t @ Sleep # u"])
        (simp add: FlipPancakes_def f g FlipPancakes_deferred_def t u done_events_append)
  qed
  have 3: "done_events (pr_trace (s2_goroutine (SyrupPancakes M env ctx' cakes'))) =
       (if pr_exit (s2_goroutine (SyrupPancakes M env ctx' cakes')) = NeverReturns then []
        else [''PancakeReady''])"
    by (simp add: done_events_append loop_done_events)
  from 1 2 3 show ?thesis by simp
qed

theorem event_closed_once_witness:
  "fr_trace (FlipPancakes sample Background [cake True False False]) =
      [EventBegin ''FlipPancakes'', FlipCall 0, SetError (Returned ''dropped''), EventDone ''FlipPancakes'']
   \<and> done_events (fr_trace (FlipPancakes sample Background [cake True False False])) = [''FlipPancakes'']
   \<and> done_events (pr_trace (s2_goroutine (SyrupPancakes sample (always ContextDone) Background (good_cakes 3))))
      = [''PancakeReady'']"
  using event_closed_once [of sample Background "[cake True False False]" "always ContextDone"
      Background "good_cakes 3"]
  by (simp add: FlipPancakes_def FlipPancakes_deferred_def good_cakes_def sample_def cake_def
      always_def eval_nat_numeral SyrupPancakes_loop.simps)

lemma loop_prefix:
  assumes "ms \<noteq> []" and "n \<le> length cs"
    and "\<forall>q<n. snd (Syrup M (cs ! q)) = None \<longrightarrow> select_case (env (p + q)) = SendCase"
  shows "SyrupPancakes_loop M env p cs ms =
    (let r = SyrupPancakes_loop M env (p + n) (drop n cs)
               (ms @ map (fst \<circ> Syrup M) (filter (\<lambda>x. snd (Syrup M x) \<noteq> None) (take n cs)))
     in r\<lparr>pr_cakes := map (fst \<circ> Syrup M) (take n cs) @ pr_cakes r,
          pr_trace :=
            concat (map (\<lambda>(q, x). if snd (Syrup M x) = None
                                   then [SyrupCall q, Send (fst (Syrup M x))] else [SyrupCall q])
                     (zip [p..<p + n] cs)) @ pr_trace r\<rparr>)"
  using assms
proof (induction cs arbitrary: n p ms)
  case Nil
  then show ?case by simp
next
  case (Cons c cs n p ms)
  show ?case
  proof (cases n)
    case 0
    then show ?thesis by simp
  next
    case (Suc m)
    obtain c' r where s: "Syrup M c = (c', r)" by (cases "Syrup M c")
    have u: "[p..<p + Suc m] = p # [Suc p..<Suc p + m]"
      by (simp add: upt_rec [of p] del: upt_Suc)
    have m: "m \<le> length cs" using Cons.prems(2) Suc by simp
    have h: "\<forall>q<m. snd (Syrup M (cs ! q)) = None \<longrightarrow> select_case (env (Suc p + q)) = SendCase"
      using Cons.prems(3) Suc by auto
    show ?thesis
    proof (cases r)
      case None
      from Cons.prems(3) Suc s None have e: "select_case (env p) = SendCase" by auto
      have "SyrupPancakes_loop M env p (c # cs) ms =
          after_item c' [SyrupCall p, Send c'] (SyrupPancakes_loop M env (Suc p) cs ms)"
        using s None e Cons.prems(1) by (simp add: loop_more)
      also note Cons.IH [OF Cons.prems(1) m h]
      finally show ?thesis
        unfolding Suc u using s None
        by (simp add: after_item_def Let_def comp_def del: upt_Suc)
    next
      case (Some err)
      have "SyrupPancakes_loop M env p (c # cs) ms =
          after_item c' [SyrupCall p] (SyrupPancakes_loop M env (Suc p) cs (ms @ [c']))"
        using s Some by (simp add: loop_fail)
      also have "SyrupPancakes_loop M env (Suc p) cs (ms @ [c']) = 
         (let r = SyrupPancakes_loop M env (Suc p + m) (drop m cs)
               ((ms @ [c']) @ map (fst \<circ> Syrup M) (filter (\<lambda>x. snd (Syrup M x) \<noteq> None) (take m cs)))
     in r\<lparr>pr_cakes := map (fst \<circ> Syrup M) (take m cs) @ pr_cakes r,
          pr_trace :=
            concat (map (\<lambda>(q, x). if snd (Syrup M x) = None
                                   then [SyrupCall q, Send (fst (Syrup M x))] else [SyrupCall q])
                     (zip [Suc p..<Suc p + m] cs)) @ pr_trace r\<rparr>)"
        by (rule Cons.IH [OF _ m h]) simp
      finally show ?thesis
        unfolding Suc u using s Some
        by (simp add: after_item_def Let_def comp_def del: upt_Suc)
    qed
  qed
qed

lemma loop_runs_through:
  assumes "ms \<noteq> []"
    and "\<forall>q<length cs. snd (Syrup M (cs ! q)) = None \<longrightarrow> select_case (env (p + q)) = SendCase"
  shows "SyrupPancakes_loop M env p cs ms =
    stopped LoopExhausted (map (fst \<circ> Syrup M) cs)
      (ms @ map (fst \<circ> Syrup M) (filter (\<lambda>x. snd (Syrup M x) \<noteq> None) cs))
      (concat (map (\<lambda>(q, x). if snd (Syrup M x) = None
                              then [SyrupCall q, Send (fst (Syrup M x))] else [SyrupCall q])
                (zip [p..<p + length cs] cs)))"
  using loop_prefix [OF assms(1) order_refl assms(2)]
  by (simp add: stopped_def)

lemma loop_stops_at:
  assumes "ms \<noteq> []" and "k < length cs"
    and "snd (Syrup M (cs ! k)) = None" and "select_case (env (p + k)) \<noteq> SendCase"
    and "\<forall>q<k. snd (Syrup M (cs ! q)) = None \<longrightarrow> select_case (env (p + q)) = SendCase"
  shows "SyrupPancakes_loop M env p cs ms =
    stopped (if select_case (env (p + k)) = DoneCase then DoneReturn else NeverReturns)
      (map (fst \<circ> Syrup M) (take (Suc k) cs) @ drop (Suc k) cs)
      (ms @ map (fst \<circ> Syrup M) (filter (\<lambda>x. snd (Syrup M x) \<noteq> None) (take k cs)))
      (concat (map (\<lambda>(q, x). if snd (Syrup M x) = None
                              then [SyrupCall q, Send (fst (Syrup M x))] else [SyrupCall q])
                (zip [p..<p + k] cs)) @ [SyrupCall (p + k)])"
proof -
  have k: "k \<le> length cs" using assms(2) by simp
  have d: "drop k cs = cs ! k # drop (Suc k) cs"
    using assms(2) by (simp add: Cons_nth_drop_Suc)
  have s: "Syrup M (cs ! k) = (fst (Syrup M (cs ! k)), None)"
    using assms(3) by (cases "Syrup M (cs ! k)") simp
  have t: "take (Suc k) cs = take k cs @ [cs ! k]"
    using assms(2) by (simp add: take_Suc_conv_app_nth)
  have "SyrupPancakes_loop M env (p + k) (drop k cs) ms' =
      stopped (if select_case (env (p + k)) = DoneCase then DoneReturn else NeverReturns)
        (fst (Syrup M (cs ! k)) # drop (Suc k) cs) ms' [SyrupCall (p + k)]" for ms'
    unfolding d using assms(4) s
    by (cases "select_case (env (p + k))") (simp_all add: loop_done loop_blocks)
  with loop_prefix [OF assms(1) k assms(5)] show ?thesis
    by (simp add: stopped_def t)
qed

text \<open>
  Claim C5. When \<open>Syrup\<close> fails on the first item, that item is the first of the
  mistakes and the goroutine goes on to the second item. The early return is never
  taken, and the whole run is fixed by the batch and by what the \<open>select\<close>s meet:
  \<^item> if every \<open>select\<close> that is reached takes the send, the goroutine tries every item
    in order, emits every good one right after its \<open>Syrup\<close>, and only when the batch is
    through closes the channel and finishes the event; the mistakes are the items
    whose \<open>Syrup\<close> failed;
  \<^item> if item \<open>k\<close> is the first good one whose \<open>select\<close> does not take the send, the
    goroutine has done the same up to item \<open>k\<close>, calls \<open>Syrup\<close> on it and emits nothing
    more: released by \<open>ctx.Done()\<close> it closes the channel and finishes the event, and
    otherwise it stays blocked and closes nothing.
  So the channel is closed only after the batch is through or after a cancellation,
  and always as the last action but one.
\<close>

theorem SyrupPancakes_first_fails:
  assumes "Syrup M c = (c', Some e)"
    and "g = s2_goroutine (SyrupPancakes M env ctx (c # cs))"
  shows "(\<exists>ms. pr_mistakes g = c' # ms)
    \<and> take 2 (syrup_calls (pr_trace g)) = take 2 [0..<length (c # cs)]
    \<and> pr_exit g \<noteq> NoMistakesReturn
    \<and> (pr_exit g = LoopExhausted \<longrightarrow>
         syrup_calls (pr_trace g) = [0..<length (c # cs)]
         \<and> emitted (pr_trace g) = map (fst \<circ> Syrup M) (filter (\<lambda>x. snd (Syrup M x) = None) cs))
    \<and> (pr_exit g = DoneReturn \<longrightarrow> (\<exists>q<length (c # cs). select_case (env q) = DoneCase))
    \<and> (CloseChan \<in> set (pr_trace g) \<longleftrightarrow> pr_exit g = LoopExhausted \<or> pr_exit g = DoneReturn)
    \<and> ((\<forall>q<length (c # cs). snd (Syrup M ((c # cs) ! q)) = None \<longrightarrow> select_case (env q) = SendCase)
         \<longrightarrow> pr_exit g = LoopExhausted
           \<and> pr_trace g =
               concat (map (\<lambda>(q, x). if snd (Syrup M x) = None
                                      then [SyrupCall q, Send (fst (Syrup M x))] else [SyrupCall q])
                        (zip [0..<length (c # cs)] (c # cs)))
               @ [CloseChan, EventDone ''PancakeReady'']
           \<and> pr_mistakes g = map (fst \<circ> Syrup M) (filter (\<lambda>x. snd (Syrup M x) \<noteq> None) (c # cs))
           \<and> pr_cakes g = map (fst \<circ> Syrup M) (c # cs))
    \<and> (\<forall>k<length (c # cs).
          snd (Syrup M ((c # cs) ! k)) = None \<and> select_case (env k) \<noteq> SendCase
          \<and> (\<forall>q<k. snd (Syrup M ((c # cs) ! q)) = None \<longrightarrow> select_case (env q) = SendCase)
         \<longrightarrow> pr_exit g = (if select_case (env k) = DoneCase then DoneReturn else NeverReturns)
           \<and> pr_trace g =
               concat (map (\<lambda>(q, x). if snd (Syrup M x) = None
                                      then [SyrupCall q, Send (fst (Syrup M x))] else [SyrupCall q])
                        (zip [0..<k] (c # cs)))
               @ SyrupCall k
               # (if select_case (env k) = DoneCase then [CloseChan, EventDone ''PancakeReady'']
                  else [])
           \<and> pr_mistakes g =
               map (fst \<circ> Syrup M) (filter (\<lambda>x. snd (Syrup M x) \<noteq> None) (take k (c # cs)))
           \<and> pr_cakes g = map (fst \<circ> Syrup M) (take (Suc k) (c # cs)) @ drop (Suc k) (c # cs))"
proof -
  let ?r = "SyrupPancakes_loop M env (Suc 0) cs [c']"
  let ?F = "\<lambda>(q, x). if snd (Syrup M x) = None
                      then [SyrupCall q, Send (fst (Syrup M x))] else [SyrupCall q]"
  have l: "SyrupPancakes_loop M env 0 (c # cs) [] = after_item c' [SyrupCall 0] ?r"
    using loop_fail [OF assms(1), of env 0 cs "[]"] by simp
  have g: "pr_exit g = pr_exit ?r" "pr_mistakes g = pr_mistakes ?r"
    "pr_cakes g = c' # pr_cakes ?r"
    "pr_trace g = (if pr_exit ?r = NeverReturns then SyrupCall 0 # pr_trace ?r
       else SyrupCall 0 # pr_trace ?r @ [CloseChan, EventDone ''PancakeReady''])"
    by (simp_all add: assms(2) l)
  have 1: "\<exists>ms. pr_mistakes g = c' # ms"
    using loop_mistakes_prefix [of M env "Suc 0" cs "[c']"] by (simp add: g)
  have 2: "take 2 (syrup_calls (pr_trace g)) = take 2 [0..<length (c # cs)]"
  proof (cases cs)
    case Nil
    then show ?thesis by (simp add: g)
  next
    case (Cons d ds)
    have "take 1 (syrup_calls (pr_trace ?r)) = [Suc 0]"
      unfolding Cons by (rule loop_first_call)
    moreover have "take 2 [0..<length (c # cs)] = [0, Suc 0]"
      unfolding Cons by (simp add: upt_rec [of 0] upt_rec [of "Suc 0"] del: upt_Suc)
    ultimately show ?thesis
      by (simp add: g syrup_calls_append eval_nat_numeral)
  qed
  have 3: "pr_exit g \<noteq> NoMistakesReturn"
    using loop_no_early_exit [of "[c']" M env "Suc 0" cs] by (simp add: g)
  have 4: "syrup_calls (pr_trace g) = [0..<length (c # cs)]
      \<and> emitted (pr_trace g) = map (fst \<circ> Syrup M) (filter (\<lambda>x. snd (Syrup M x) = None) cs)"
    if "pr_exit g = LoopExhausted"
  proof -
    from that have x: "pr_exit ?r = LoopExhausted" by (simp add: g)
    have "[0..<length (c # cs)] = 0 # [Suc 0..<Suc 0 + length cs]"
      by (simp add: upt_rec [of 0] del: upt_Suc)
    with loop_exhausted [of "[c']" M env "Suc 0" cs] x show ?thesis
      by (simp add: g syrup_calls_append emitted_append)
  qed
  have 5: "\<exists>q<length (c # cs). select_case (env q) = DoneCase" if "pr_exit g = DoneReturn"
  proof -
    from that have "pr_exit ?r = DoneReturn" by (simp add: g)
    then obtain q where "q < Suc 0 + length cs" "select_case (env q) = DoneCase"
      using loop_done_return by blast
    then show ?thesis by (intro exI [of _ q]) simp
  qed
  have 6: "CloseChan \<in> set (pr_trace g) \<longleftrightarrow> pr_exit g = LoopExhausted \<or> pr_exit g = DoneReturn"
    using loop_no_close [of M env "Suc 0" cs "[c']"] 3
    by (cases "pr_exit ?r") (simp_all add: g)
  have c: "snd (Syrup M c) = Some e" "fst (Syrup M c) = c'"
    using assms(1) by simp_all
  have z: "concat (map ?F (zip [0..<Suc n] (c # cs))) =
      SyrupCall 0 # concat (map ?F (zip [Suc 0..<Suc n] cs))" for n
    by (simp add: upt_rec [of 0] c del: upt_Suc)
  have 7: "pr_exit g = LoopExhausted
      \<and> pr_trace g = concat (map ?F (zip [0..<length (c # cs)] (c # cs)))
          @ [CloseChan, EventDone ''PancakeReady'']
      \<and> pr_mistakes g = map (fst \<circ> Syrup M) (filter (\<lambda>x. snd (Syrup M x) \<noteq> None) (c # cs))
      \<and> pr_cakes g = map (fst \<circ> Syrup M) (c # cs)"
    if h: "\<forall>q<length (c # cs). snd (Syrup M ((c # cs) ! q)) = None \<longrightarrow> select_case (env q) = SendCase"
  proof -
    have "\<forall>q<length cs. snd (Syrup M (cs ! q)) = None \<longrightarrow> select_case (env (Suc 0 + q)) = SendCase"
    proof (intro allI impI)
      fix q assume "q < length cs" "snd (Syrup M (cs ! q)) = None"
      with h [rule_format, of "Suc q"] show "select_case (env (Suc 0 + q)) = SendCase" by simp
    qed
    from loop_runs_through [of "[c']" cs M env "Suc 0", OF _ this]
    have r: "?r = stopped LoopExhausted (map (fst \<circ> Syrup M) cs)
        ([c'] @ map (fst \<circ> Syrup M) (filter (\<lambda>x. snd (Syrup M x) \<noteq> None) cs))
        (concat (map ?F (zip [Suc 0..<Suc 0 + length cs] cs)))"
      by simp
    have "length (c # cs) = Suc (length cs)" by simp
    then show ?thesis
      unfolding g r \<open>length (c # cs) = Suc (length cs)\<close> z
      by (simp add: c)
  qed
  have 8: "pr_exit g = (if select_case (env k) = DoneCase then DoneReturn else NeverReturns)
      \<and> pr_trace g = concat (map ?F (zip [0..<k] (c # cs))) @ SyrupCall k
          # (if select_case (env k) = DoneCase then [CloseChan, EventDone ''PancakeReady''] else [])
      \<and> pr_mistakes g =
          map (fst \<circ> Syrup M) (filter (\<lambda>x. snd (Syrup M x) \<noteq> None) (take k (c # cs)))
      \<and> pr_cakes g = map (fst \<circ> Syrup M) (take (Suc k) (c # cs)) @ drop (Suc k) (c # cs)"
    if k: "k < length (c # cs)" "snd (Syrup M ((c # cs) ! k)) = None"
      "select_case (env k) \<noteq> SendCase"
      "\<forall>q<k. snd (Syrup M ((c # cs) ! q)) = None \<longrightarrow> select_case (env q) = SendCase"
    for k
  proof -
    from k(2) c obtain j where j: "k = Suc j" by (cases k) simp_all
    have a: "j < length cs" "snd (Syrup M (cs ! j)) = None"
      "select_case (env (Suc 0 + j)) \<noteq> SendCase"
      using k j by simp_all
    have b: "\<forall>q<j. snd (Syrup M (cs ! q)) = None \<longrightarrow> select_case (env (Suc 0 + q)) = SendCase"
    proof (intro allI impI)
      fix q assume "q < j" "snd (Syrup M (cs ! q)) = None"
      with k(4) [rule_format, of "Suc q"] j show "select_case (env (Suc 0 + q)) = SendCase"
        by simp
    qed
    from loop_stops_at [of "[c']" j cs M env "Suc 0", OF _ a b]
    have r: "?r = stopped (if select_case (env (Suc 0 + j)) = DoneCase then DoneReturn else NeverReturns)
        (map (fst \<circ> Syrup M) (take (Suc j) cs) @ drop (Suc j) cs)
        ([c'] @ map (fst \<circ> Syrup M) (filter (\<lambda>x. snd (Syrup M x) \<noteq> None) (take j cs)))
        (concat (map ?F (zip [Suc 0..<Suc 0 + j] cs)) @ [SyrupCall (Suc 0 + j)])"
      by simp
    show ?thesis
      unfolding g r j z
      by (simp add: c)
  qed
  from 1 2 3 4 5 6 7 8 show ?thesis by blast
qed

theorem SyrupPancakes_first_fails_witness:
  "pr_trace (s2_goroutine (SyrupPancakes sample (always ReceiverReady) Background
      [cake False False True, cake False False False, cake False False False])) =
     [SyrupCall 0, SyrupCall 1, Send ((cake False False False)\<lparr>syrups := 1\<rparr>),
      SyrupCall 2, Send ((cake False False False)\<lparr>syrups := 1\<rparr>),
      CloseChan, EventDone ''PancakeReady'']
   \<and> pr_mistakes (s2_goroutine (SyrupPancakes sample (always ReceiverReady) Background
      [cake False False True, cake False False False, cake False False False])) =
     [(cake False False True)\<lparr>syrups := 1\<rparr>]
   \<and> pr_exit (s2_goroutine (SyrupPancakes sample (always ReceiverReady) Background
      [cake False False True, cake False False False, cake False False False])) = LoopExhausted
   \<and> pr_trace (s2_goroutine (SyrupPancakes sample (always ContextDone) Background
      [cake False False True, cake False False False, cake False False False])) =
     [SyrupCall 0, SyrupCall 1, CloseChan, EventDone ''PancakeReady'']
   \<and> pr_exit (s2_goroutine (SyrupPancakes sample (always ContextDone) Background
      [cake False False True, cake False False False, cake False False False])) = DoneReturn"
  using SyrupPancakes_first_fails [of sample "cake False False True"
      "(cake False False True)\<lparr>syrups := 1\<rparr>" "''soggy''"
      "s2_goroutine (SyrupPancakes sample (always ReceiverReady) Background
        [cake False False True, cake False False False, cake False False False])"
      "always ReceiverReady" Background "[cake False False False, cake False False False]"]
    SyrupPancakes_first_fails [of sample "cake False False True"
      "(cake False False True)\<lparr>syrups := 1\<rparr>" "''soggy''"
      "s2_goroutine (SyrupPancakes sample (always ContextDone) Background
        [cake False False True, cake False False False, cake False False False])"
      "always ContextDone" Background "[cake False False False, cake False False False]"]
  by (simp add: sample_def cake_def always_def SyrupPancakes_loop.simps)

text \<open>
  Claim C6, amended. When the context is cancelled and every \<open>select\<close> the goroutine
  reaches takes the \<open>ctx.Done()\<close> case (it has to when no receiver is waiting, as under
  \<open>ServeBreakfast\<close>), nothing is emitted, the channel is closed once the loop is left,
  and the event of Stage 2 is finished exactly once, after the close.
\<close>
theorem SyrupPancakes_cancelled:
  assumes "\<forall>p. select_case (env p) = DoneCase"
  shows "emitted (pr_trace (s2_goroutine (SyrupPancakes M env ctx cakes))) = []
    \<and> done_events (pr_trace (s2_goroutine (SyrupPancakes M env ctx cakes))) = [''PancakeReady'']
    \<and> (pr_exit (s2_goroutine (SyrupPancakes M env ctx cakes)) = DoneReturn
        \<or> pr_exit (s2_goroutine (SyrupPancakes M env ctx cakes)) = LoopExhausted)
    \<and> pr_trace (s2_goroutine (SyrupPancakes M env ctx cakes)) =
        pr_trace (SyrupPancakes_loop M env 0 cakes []) @ [CloseChan, EventDone ''PancakeReady'']
    \<and> CloseChan \<notin> set (pr_trace (SyrupPancakes_loop M env 0 cakes []))"
proof -
  let ?r = "SyrupPancakes_loop M env 0 cakes []"
  from loop_cancelled [OF assms, of M 0 cakes "[]"]
  have e: "emitted (pr_trace ?r) = []"
    and x: "pr_exit ?r = DoneReturn \<or> pr_exit ?r = LoopExhausted"
    by simp_all
  from x have n: "pr_exit ?r \<noteq> NeverReturns" by auto
  show ?thesis
    using e x n by (simp add: emitted_append done_events_append loop_done_events loop_no_close)
qed

theorem SyrupPancakes_cancelled_witness:
  "pr_trace (s2_goroutine (SyrupPancakes sample (always ContextDone) Background (good_cakes 3))) =
     [SyrupCall 0, CloseChan, EventDone ''PancakeReady'']
   \<and> emitted (pr_trace (s2_goroutine (SyrupPancakes sample (always ContextDone) Background (good_cakes 3)))) = []"
  using SyrupPancakes_cancelled [of "always ContextDone" sample Background "good_cakes 3"]
  by (simp add: good_cakes_def sample_def cake_def always_def eval_nat_numeral
      SyrupPancakes_loop.simps)

text \<open>
  Claim C6 as stated fails: the context is already cancelled at the first \<open>select\<close>, a
  receiver is waiting too, the runtime picks the send, and the item is emitted.
\<close>
theorem SyrupPancakes_cancelled_counterexample:
  "cancelled (always (BothReady True) 0)
   \<and> emitted (pr_trace (s2_goroutine (SyrupPancakes sample (always (BothReady True)) Background (good_cakes 3))))
      = [(cake False False False)\<lparr>syrups := 1\<rparr>]"
  by (simp add: good_cakes_def sample_def cake_def always_def eval_nat_numeral
      SyrupPancakes_loop.simps)

lemma flip_range_actions: "set (snd (snd (flip_range M p cs))) \<subseteq> range FlipCall"
proof (induction cs arbitrary: p)
  case Nil
  show ?case by simp
next
  case (Cons c cs p)
  from Cons [of "Suc p"] show ?case
    by (cases "Flip M c"; cases "snd (Flip M c)"; cases "flip_range M (Suc p) cs") auto
qed

lemma burnt_range_actions: "set (snd (burnt_range M p cs)) \<subseteq> range IsBurntCall"
  by (induction M p cs rule: burnt_range.induct) (auto split: prod.splits)

lemma FlipPancakes_actions:
  "set (fr_trace (FlipPancakes M ctx cakes)) \<subseteq>
     {EventBegin ''FlipPancakes'', Sleep, EventDone ''FlipPancakes''}
     \<union> range FlipCall \<union> range IsBurntCall \<union> range SetError"
proof -
  obtain cs r t where f: "flip_range M 0 cakes = (cs, r, t)"
    by (cases "flip_range M 0 cakes")
  obtain b u where g: "burnt_range M 0 cs = (b, u)"
    by (cases "burnt_range M 0 cs")
  have t: "set t \<subseteq> range FlipCall"
    using flip_range_actions [of M 0 cakes] f by simp
  have u: "set u \<subseteq> range IsBurntCall"
    using burnt_range_actions [of M 0 cs] g by simp
  show ?thesis
    using t u
    by (cases r) (auto simp: FlipPancakes_def f g Let_def FlipPancakes_deferred_def)
qed

text \<open>
  Claim C7. When \<open>FlipPancakes\<close> returns an error, \<open>ServeBreakfast\<close> returns that very
  error; neither \<open>SyrupPancakes\<close> nor \<open>EatPancakes\<close> is called, no goroutine is started;
  the deferred \<open>rootSpan.Finish()\<close> and \<open>cancel()\<close> still run, last.
\<close>
theorem ServeBreakfast_flip_error:
  assumes "fr_err (FlipPancakes M (ContextWithSpan Background ''ServeHotCakes'') (MakePancakes 3))
      = Some err"
  shows "sb_err (ServeBreakfast M MakePancakes) = Some err
    \<and> sb_stage2 (ServeBreakfast M MakePancakes) = None
    \<and> sb_eaten (ServeBreakfast M MakePancakes) = None
    \<and> sb_trace (ServeBreakfast M MakePancakes) =
        [WithCancel, StartSpan ''ServeHotCakes'', MakePancakesCall 3]
        @ fr_trace (FlipPancakes M (ContextWithSpan Background ''ServeHotCakes'') (MakePancakes 3))
        @ [SpanFinish ''ServeHotCakes'', CancelCall]
    \<and> EventBegin ''PancakeReady'' \<notin> set (sb_trace (ServeBreakfast M MakePancakes))
    \<and> GoStmt \<notin> set (sb_trace (ServeBreakfast M MakePancakes))
    \<and> EatPancakesCall \<notin> set (sb_trace (ServeBreakfast M MakePancakes))"
proof -
  let ?f = "FlipPancakes M (ContextWithSpan Background ''ServeHotCakes'') (MakePancakes 3)"
  have t: "sb_trace (ServeBreakfast M MakePancakes) =
      [WithCancel, StartSpan ''ServeHotCakes'', MakePancakesCall 3] @ fr_trace ?f
      @ [SpanFinish ''ServeHotCakes'', CancelCall]"
    using assms by (simp add: ServeBreakfast_def Let_def)
  have a: "EventBegin ''PancakeReady'' \<notin> set (fr_trace ?f)" "GoStmt \<notin> set (fr_trace ?f)"
    "EatPancakesCall \<notin> set (fr_trace ?f)"
    using FlipPancakes_actions [of M "ContextWithSpan Background ''ServeHotCakes''" "MakePancakes 3"]
    by auto
  show ?thesis
    unfolding t using assms a by (simp add: ServeBreakfast_def Let_def)
qed

theorem ServeBreakfast_flip_error_witness:
  "sb_err (ServeBreakfast sample second_drops) = Some (Returned ''dropped'')
   \<and> sb_stage2 (ServeBreakfast sample second_drops) = None
   \<and> sb_trace (ServeBreakfast sample second_drops) =
      [WithCancel, StartSpan ''ServeHotCakes'', MakePancakesCall 3,
       EventBegin ''FlipPancakes'', FlipCall 0, FlipCall 1,
       SetError (Returned ''dropped''), EventDone ''FlipPancakes'',
       SpanFinish ''ServeHotCakes'', CancelCall]"
  using ServeBreakfast_flip_error [of sample second_drops "Returned ''dropped''"]
  by (simp add: FlipPancakes_def FlipPancakes_deferred_def second_drops_def good_cakes_def
      sample_def cake_def eval_nat_numeral)

text \<open>
  Claim C8, on a batch of one pancake whose \<open>Syrup\<close> fails: the item goes to the
  mistakes and no error reaches the caller, but no log record is written either, by the
  goroutine or by the caller: \<open>fmt.Errorf\<close> only builds an error value, which is dropped.
\<close>
theorem SyrupPancakes_failure_not_logged:
  "pr_trace (s2_goroutine (SyrupPancakes sample (always ReceiverReady) Background
      [cake False False True])) = [SyrupCall 0, CloseChan, EventDone ''PancakeReady'']
   \<and> log_records (pr_trace (s2_goroutine (SyrupPancakes sample (always ReceiverReady) Background
      [cake False False True]))) = []
   \<and> log_records (s2_caller (SyrupPancakes sample (always ReceiverReady) Background
      [cake False False True])) = []
   \<and> pr_mistakes (s2_goroutine (SyrupPancakes sample (always ReceiverReady) Background
      [cake False False True])) = [(cake False False True)\<lparr>syrups := 1\<rparr>]"
  by (simp add: sample_def cake_def always_def SyrupPancakes_loop.simps)

text \<open>
  Claim C9, on a batch of three good pancakes: \<open>ServeBreakfast\<close> starts Stage 2, hands
  the channel to \<open>EatPancakes\<close> and returns no error, but \<open>EatPancakes\<close> has returned
  without a single receive, and right after it only the deferred \<open>rootSpan.Finish()\<close>
  and \<open>cancel()\<close> run. Whatever channel it is handed, \<open>EatPancakes\<close> receives nothing,
  whereas a consumer that drains the channel to completion receives at least the close.
\<close>

theorem ServeBreakfast_consumer_receives_nothing:
  "sb_err (ServeBreakfast sample good_cakes) = None
   \<and> sb_eaten (ServeBreakfast sample good_cakes) = Some []
   \<and> sb_trace (ServeBreakfast sample good_cakes) =
      [WithCancel, StartSpan ''ServeHotCakes'', MakePancakesCall 3,
       EventBegin ''FlipPancakes'', FlipCall 0, FlipCall 1, FlipCall 2, Sleep,
       IsBurntCall 0, IsBurntCall 1, IsBurntCall 2, EventDone ''FlipPancakes'',
       EventBegin ''PancakeReady'', MakeChan, GoStmt, EatPancakesCall,
       SpanFinish ''ServeHotCakes'', CancelCall]
   \<and> EatPancakes ready = []
   \<and> drained ready \<noteq> EatPancakes ready"
  by (simp add: ServeBreakfast_def Let_def EatPancakes_def drained_def FlipPancakes_def
      FlipPancakes_deferred_def good_cakes_def sample_def cake_def eval_nat_numeral)

end
